theory Spec2Isabelle
  imports Complex_Main "HOL-Library.Sublist"
begin

section \<open>Python values, errors and the random source\<close>

text \<open>
  The generator of \<^verbatim>\<open>main.py\<close> (class \<^verbatim>\<open>NetworkTrafficGenerator\<close>) is embedded
  function by function. Python floats are modelled as reals: no rounding error, no
  overflow, no NaN. Exceptions are values of type \<open>error\<close> on the left of a sum.
\<close>

datatype error = KeyError | IndexError | ValueError | OverflowError

definition ebind :: "error + 'a \<Rightarrow> ('a \<Rightarrow> error + 'b) \<Rightarrow> error + 'b" where
  "ebind m f = (case m of Inl e \<Rightarrow> Inl e | Inr x \<Rightarrow> f x)"

text \<open>
  \<^verbatim>\<open>np.random\<close> is one global generator. Its state is modelled by the two sequences of
  raw variates it is still going to deliver (the seed fixes both): integers, from which
  the bounded integer draws are reduced, and reals, which are the continuous draws
  themselves. Every call consumes the head of one sequence.
\<close>

record rng =
  ints :: "nat \<Rightarrow> nat"
  reals :: "nat \<Rightarrow> real"

definition next_int :: "rng \<Rightarrow> nat \<times> rng" where
  "next_int g = (ints g 0, g\<lparr>ints := (\<lambda>i. ints g (Suc i))\<rparr>)"

definition next_real :: "rng \<Rightarrow> real \<times> rng" where
  "next_real g = (reals g 0, g\<lparr>reals := (\<lambda>i. reals g (Suc i))\<rparr>)"

text \<open>
  \<^verbatim>\<open>np.random.randint(low, high)\<close>: an integer from \<open>low\<close> (inclusive) to \<open>high\<close>
  (exclusive); \<^verbatim>\<open>ValueError\<close> when \<open>low >= high\<close>.
\<close>

definition randint :: "int \<Rightarrow> int \<Rightarrow> rng \<Rightarrow> error + (int \<times> rng)" where
  "randint low high g =
     (if low \<ge> high then Inl ValueError
      else (case next_int g of (k, g') \<Rightarrow> Inr (low + int (k mod nat (high - low)), g')))"

text \<open>\<^verbatim>\<open>np.random.choice(a)\<close> on a list: one element, by a bounded integer draw.\<close>

definition choice :: "'a list \<Rightarrow> rng \<Rightarrow> error + ('a \<times> rng)" where
  "choice a g =
     (if a = [] then Inl ValueError
      else (case next_int g of (k, g') \<Rightarrow> Inr (a ! (k mod length a), g')))"

text \<open>
  \<^verbatim>\<open>np.random.choice(a, p=p)\<close>: a uniform real \<open>u\<close> of \<open>[0, 1)\<close>, the fractional
  part of the raw variate, is located in the cumulative weights; the element whose
  cumulative weight first exceeds \<open>u\<close> is returned.
\<close>

fun pick_weighted :: "'a list \<Rightarrow> real list \<Rightarrow> real \<Rightarrow> real \<Rightarrow> error + 'a" where
  "pick_weighted (x # xs) (p # ps) acc u =
     (if u < acc + p then Inr x else pick_weighted xs ps (acc + p) u)"
| "pick_weighted _ _ acc u = Inl IndexError"

definition choice_p :: "'a list \<Rightarrow> real list \<Rightarrow> rng \<Rightarrow> error + ('a \<times> rng)" where
  "choice_p a p g =
     (if a = [] \<or> length a \<noteq> length p then Inl ValueError
      else (case next_real g of (x, g') \<Rightarrow>
              ebind (pick_weighted a p 0 (frac x)) (\<lambda>y. Inr (y, g'))))"

text \<open>
  \<^verbatim>\<open>np.random.lognormal(mean, sigma)\<close> and \<^verbatim>\<open>np.random.beta(a, b)\<close>: the variate is
  read off the source. Its law is not modelled; the parameters are kept so that the
  calls read as in the code. numpy guarantees a positive log-normal variate and a beta
  variate in the unit interval.
\<close>

definition lognormal :: "real \<Rightarrow> real \<Rightarrow> rng \<Rightarrow> real \<times> rng" where
  "lognormal mean sigma g = next_real g"

definition beta :: "real \<Rightarrow> real \<Rightarrow> rng \<Rightarrow> real \<times> rng" where
  "beta a b g = next_real g"

text \<open>\<^verbatim>\<open>int(x)\<close> on a float truncates towards zero.\<close>

definition py_int :: "real \<Rightarrow> int" where
  "py_int x = (if 0 \<le> x then \<lfloor>x\<rfloor> else \<lceil>x\<rceil>)"

text \<open>\<^verbatim>\<open>round(x, n)\<close>: to \<open>n\<close> decimals, a tie going to the even neighbour.\<close>

definition round_half_even :: "real \<Rightarrow> int" where
  "round_half_even y =
     (let f = \<lfloor>y\<rfloor>; d = y - of_int f
      in if d < 1 / 2 then f else if 1 / 2 < d then f + 1
         else if even f then f else f + 1)"

definition py_round :: "real \<Rightarrow> nat \<Rightarrow> real" where
  "py_round x n = of_int (round_half_even (x * 10 ^ n)) / 10 ^ n"

section \<open>Timestamps\<close>

text \<open>
  A naive \<^verbatim>\<open>datetime\<close> is the number of microseconds since 0001-01-01 00:00:00, so
  that comparison is \<open><\<close> and \<^verbatim>\<open>timedelta(hours=1)\<close> is an addition. The calendar
  fields are recovered as CPython's \<^verbatim>\<open>_ord2ymd\<close> does. Years are printed on four
  digits, as \<^verbatim>\<open>%Y\<close> prints the years from 1000 on.
\<close>

type_synonym datetime = nat

definition us_per_hour :: nat where "us_per_hour = 3600000000"
definition us_per_day :: nat where "us_per_day = 86400000000"

definition is_leap :: "nat \<Rightarrow> bool" where
  "is_leap y = (y mod 4 = 0 \<and> (y mod 100 \<noteq> 0 \<or> y mod 400 = 0))"

definition DAYS_IN_MONTH :: "nat list" where
  "DAYS_IN_MONTH = [0, 31, 28, 31, 30, 31, 30, 31, 31, 30, 31, 30, 31]"

definition DAYS_BEFORE_MONTH :: "nat list" where
  "DAYS_BEFORE_MONTH = [0, 0, 31, 59, 90, 120, 151, 181, 212, 243, 273, 304, 334]"

definition days_before_year :: "nat \<Rightarrow> nat" where
  "days_before_year year =
     (let y = year - 1 in y * 365 + y div 4 - y div 100 + y div 400)"

definition days_before_month :: "nat \<Rightarrow> nat \<Rightarrow> nat" where
  "days_before_month year month =
     DAYS_BEFORE_MONTH ! month + (if month > 2 \<and> is_leap year then 1 else 0)"

text \<open>\<^verbatim>\<open>datetime(year, month, day, hour)\<close>, for field values in range.\<close>

definition datetime_of :: "nat \<Rightarrow> nat \<Rightarrow> nat \<Rightarrow> nat \<Rightarrow> datetime" where
  "datetime_of year month day hour =
     (days_before_year year + days_before_month year month + day - 1) * us_per_day
       + hour * us_per_hour"

definition ord2ymd :: "nat \<Rightarrow> nat \<times> nat \<times> nat" where
  "ord2ymd n0 =
     (let n400 = n0 div 146097; n = n0 mod 146097;
          n100 = n div 36524; n = n mod 36524;
          n4 = n div 1461; n = n mod 1461;
          n1 = n div 365; n = n mod 365;
          year = n400 * 400 + 1 + n100 * 100 + n4 * 4 + n1
      in if n1 = 4 \<or> n100 = 4 then (year - 1, 12, 31)
         else
           let leapyear = (n1 = 3 \<and> (n4 \<noteq> 24 \<or> n100 = 3));
               month = (n + 50) div 32;
               preceding = DAYS_BEFORE_MONTH ! month + (if month > 2 \<and> leapyear then 1 else 0)
           in if preceding > n
              then (let month' = month - 1;
                        preceding' = preceding -
                          (DAYS_IN_MONTH ! month' + (if month' = 2 \<and> leapyear then 1 else 0))
                    in (year, month', n - preceding' + 1))
              else (year, month, n - preceding + 1))"

definition hour_of :: "datetime \<Rightarrow> nat" where
  "hour_of t = (t div us_per_hour) mod 24"

definition minute_of :: "datetime \<Rightarrow> nat" where
  "minute_of t = (t div 60000000) mod 60"

definition second_of :: "datetime \<Rightarrow> nat" where
  "second_of t = (t div 1000000) mod 60"

definition ymd_of :: "datetime \<Rightarrow> nat \<times> nat \<times> nat" where
  "ymd_of t = ord2ymd (t div us_per_day)"

definition digit :: "nat \<Rightarrow> char" where
  "digit d = ''0123456789'' ! d"

definition pad2 :: "nat \<Rightarrow> string" where
  "pad2 n = [digit (n div 10 mod 10), digit (n mod 10)]"

definition pad4 :: "nat \<Rightarrow> string" where
  "pad4 n = [digit (n div 1000 mod 10), digit (n div 100 mod 10),
             digit (n div 10 mod 10), digit (n mod 10)]"

text \<open>\<^verbatim>\<open>strftime\<close> with the three formats of the generator.\<close>

definition strftime_date :: "datetime \<Rightarrow> string" where
  \<comment> \<open>\<^verbatim>\<open>'%Y-%m-%d'\<close>\<close>
  "strftime_date t = (case ymd_of t of (y, m, d) \<Rightarrow> pad4 y @ ''-'' @ pad2 m @ ''-'' @ pad2 d)"

definition strftime_compact :: "datetime \<Rightarrow> string" where
  \<comment> \<open>\<^verbatim>\<open>'%Y%m%d'\<close>\<close>
  "strftime_compact t = (case ymd_of t of (y, m, d) \<Rightarrow> pad4 y @ pad2 m @ pad2 d)"

definition strftime_full :: "datetime \<Rightarrow> string" where
  \<comment> \<open>\<^verbatim>\<open>'%Y-%m-%d %H:%M:%S'\<close>\<close>
  "strftime_full t =
     strftime_date t @ '' '' @ pad2 (hour_of t) @ '':'' @ pad2 (minute_of t) @ '':''
       @ pad2 (second_of t)"

text \<open>
  \<^verbatim>\<open>current + timedelta(hours=1)\<close>; \<^verbatim>\<open>OverflowError\<close> past 9999-12-31.
\<close>

definition MAXORDINAL :: nat where "MAXORDINAL = 3652059"

definition add_hour :: "datetime \<Rightarrow> error + datetime" where
  "add_hour t =
     (if t + us_per_hour < MAXORDINAL * us_per_day then Inr (t + us_per_hour)
      else Inl OverflowError)"

section \<open>The traffic metrics model\<close>

record metrics =
  bytes :: int
  packets :: int
  duration :: real
  latency :: real
  packet_loss :: real

definition time_multiplier :: "nat \<Rightarrow> real" where
  "time_multiplier hour =
     (if 9 \<le> hour \<and> hour \<le> 17 then 15 / 10
      else if 18 \<le> hour \<and> hour \<le> 23 then 13 / 10 else 7 / 10)"

definition generate_traffic_metrics :: "datetime \<Rightarrow> real \<Rightarrow> rng \<Rightarrow> metrics \<times> rng" where
  "generate_traffic_metrics timestamp event_impact g =
     (case lognormal 10 1 g of (x1, g1) \<Rightarrow>
      let base_bytes = x1 * 1000;
          base_packets = max 1 (py_int (base_bytes / 1460))
      in case lognormal 2 (1 / 2) g1 of (x2, g2) \<Rightarrow>
      let base_duration = x2 / 1000;
          hour = hour_of timestamp;
          final_multiplier = time_multiplier hour * event_impact
      in case lognormal 2 (1 / 2) g2 of (x3, g3) \<Rightarrow>
         case beta 1 30 g3 of (x4, g4) \<Rightarrow>
           (\<lparr>bytes = py_int (base_bytes * final_multiplier),
             packets = py_int (of_int base_packets * final_multiplier),
             duration = py_round (base_duration * final_multiplier) 3,
             latency = py_round x3 3,
             packet_loss = py_round (x4 * 100) 4\<rparr>, g4))"

text \<open>
  The same function with the rounding of double arithmetic written out. \<open>fl\<close> is the
  rounding of a real to the nearest double; it follows every multiplication, division,
  literal and conversion of an \<^verbatim>\<open>int\<close> of the code, and \<^verbatim>\<open>round(x, n)\<close> is the double
  nearest to the decimal rounding of \<open>x\<close>. The variates and the impact are doubles as
  they come. With the identity for \<open>fl\<close> this is \<open>generate_traffic_metrics\<close>.
\<close>

definition final_multiplier :: "(real \<Rightarrow> real) \<Rightarrow> datetime \<Rightarrow> real \<Rightarrow> real" where
  "final_multiplier fl timestamp event_impact =
     fl (fl (time_multiplier (hour_of timestamp)) * event_impact)"

definition generate_traffic_metrics_fl ::
  "(real \<Rightarrow> real) \<Rightarrow> datetime \<Rightarrow> real \<Rightarrow> rng \<Rightarrow> metrics \<times> rng" where
  "generate_traffic_metrics_fl fl timestamp event_impact g =
     (case lognormal 10 1 g of (x1, g1) \<Rightarrow>
      let base_bytes = fl (x1 * 1000);
          base_packets = max 1 (py_int (fl (base_bytes / 1460)))
      in case lognormal 2 (1 / 2) g1 of (x2, g2) \<Rightarrow>
      let base_duration = fl (x2 / 1000);
          multiplier = final_multiplier fl timestamp event_impact
      in case lognormal 2 (1 / 2) g2 of (x3, g3) \<Rightarrow>
         case beta 1 30 g3 of (x4, g4) \<Rightarrow>
           (\<lparr>bytes = py_int (fl (base_bytes * multiplier)),
             packets = py_int (fl (fl (of_int base_packets) * multiplier)),
             duration = fl (py_round (fl (base_duration * multiplier)) 3),
             latency = fl (py_round x3 3),
             packet_loss = fl (py_round (fl (x4 * 100)) 4)\<rparr>, g4))"

section \<open>The address sampler\<close>

text \<open>
  An \<^verbatim>\<open>ipaddress.IPv4Network\<close>: its first address as a 32-bit number and its prefix
  length. \<open>cidr a b c d p\<close> is \<^verbatim>\<open>ip_network('a.b.c.d/p')\<close>; every block configured
  below has its host bits clear, so the strict parse succeeds.
\<close>

record network =
  network_address :: nat
  prefixlen :: nat

definition num_addresses :: "network \<Rightarrow> nat" where
  "num_addresses net = 2 ^ (32 - prefixlen net)"

definition cidr :: "nat \<Rightarrow> nat \<Rightarrow> nat \<Rightarrow> nat \<Rightarrow> nat \<Rightarrow> network" where
  "cidr a b c d p = \<lparr>network_address = ((a * 256 + b) * 256 + c) * 256 + d, prefixlen = p\<rparr>"

text \<open>\<^verbatim>\<open>self.ip_ranges\<close>; \<open>None\<close> is a missing key.\<close>

definition ip_ranges :: "string \<Rightarrow> network list option" where
  "ip_ranges name =
     (if name = ''qatar_isps''
        then Some [cidr 178 152 0 0 15, cidr 37 208 0 0 13, cidr 82 148 96 0 19]
      else if name = ''data_centers''
        then Some [cidr 185 176 0 0 16, cidr 157 167 0 0 16]
      else if name = ''cdns''
        then Some [cidr 104 16 0 0 12, cidr 199 27 128 0 21]
      else None)"

fun str_nat :: "nat \<Rightarrow> string" where
  "str_nat n = (if n < 10 then [digit n] else str_nat (n div 10) @ [digit (n mod 10)])"

declare str_nat.simps [simp del]

text \<open>\<^verbatim>\<open>str\<close> of an IPv4 address: the dotted quad.\<close>

definition ip_str :: "nat \<Rightarrow> string" where
  "ip_str a =
     str_nat (a div 16777216 mod 256) @ ''.'' @ str_nat (a div 65536 mod 256) @ ''.''
       @ str_nat (a div 256 mod 256) @ ''.'' @ str_nat (a mod 256)"

text \<open>
  The first two lines of \<^verbatim>\<open>generate_ip\<close>: the block drawn from the pool and the host
  offset drawn by \<^verbatim>\<open>randint(0, network.num_addresses - 1)\<close>.
\<close>

definition generate_ip_host :: "string \<Rightarrow> rng \<Rightarrow> error + ((network \<times> int) \<times> rng)" where
  "generate_ip_host ip_range g =
     (case ip_ranges ip_range of
        None \<Rightarrow> Inl KeyError
      | Some blocks \<Rightarrow>
          ebind (choice blocks g) (\<lambda>(net, g1).
          ebind (randint 0 (int (num_addresses net) - 1) g1) (\<lambda>(host, g2).
          Inr ((net, host), g2))))"

text \<open>
  \<^verbatim>\<open>network[host]\<close> is the address \<open>host\<close> places after the first one
  (\<^verbatim>\<open>IndexError\<close> outside the block).
\<close>

definition network_index :: "network \<Rightarrow> int \<Rightarrow> error + nat" where
  "network_index net host =
     (if 0 \<le> host \<and> host < int (num_addresses net)
        then Inr (network_address net + nat host)
      else if host < 0 \<and> - int (num_addresses net) \<le> host
        then Inr (network_address net + nat (int (num_addresses net) + host))
      else Inl IndexError)"

definition generate_ip :: "string \<Rightarrow> rng \<Rightarrow> error + (string \<times> rng)" where
  "generate_ip ip_range g =
     ebind (generate_ip_host ip_range g) (\<lambda>((net, host), g2).
     ebind (network_index net host) (\<lambda>a. Inr (ip_str a, g2)))"

section \<open>Records, events and batch files\<close>

record traffic_record = metrics +
  timestamp :: string
  source_ip :: string
  dest_ip :: string
  source_port :: int
  dest_port :: int
  protocol :: string

text \<open>The keys of a record dictionary, in insertion order.\<close>

definition keys :: "traffic_record \<Rightarrow> string list" where
  "keys r = [''timestamp'', ''source_ip'', ''dest_ip'', ''source_port'', ''dest_port'',
             ''protocol'', ''bytes'', ''packets'', ''duration'', ''latency'', ''packet_loss'']"

text \<open>\<^verbatim>\<open>self.common_ports.values()\<close> and \<^verbatim>\<open>self.protocols\<close>, in insertion order.\<close>

definition common_ports_values :: "int list" where
  "common_ports_values = [80, 443, 53, 1935, 3074]"

definition protocols_keys :: "string list" where
  "protocols_keys = [''TCP'', ''UDP'', ''ICMP'']"

definition protocols_values :: "real list" where
  "protocols_values = [75 / 100, 20 / 100, 5 / 100]"

text \<open>
  An event dictionary: \<open>None\<close> is a missing key. The generator reads
  \<^verbatim>\<open>date_range\<close> and \<^verbatim>\<open>impact_score\<close> only.
\<close>

record event =
  event_name :: string
  date_range :: "string option"
  impact_score :: "real option"

text \<open>
  A file written by \<^verbatim>\<open>csv.DictWriter\<close>: its name, the header row and the rows. The
  files written by a run are kept in the order of writing.
\<close>

record csv_file =
  filename :: string
  header :: "string list"
  rows :: "traffic_record list"

definition save_batch :: "traffic_record list \<Rightarrow> string \<Rightarrow> csv_file list \<Rightarrow> error + csv_file list" where
  "save_batch records batch_id fs =
     (case records of
        [] \<Rightarrow> Inl IndexError
      | r # _ \<Rightarrow>
          Inr (fs @ [\<lparr>filename = ''traffic_data_batch_'' @ batch_id @ ''.csv'',
                       header = keys r, rows = records\<rparr>]))"

section \<open>The generation driver\<close>

text \<open>
  \<^verbatim>\<open>[e for e in events if e['date_range'].startswith(d)]\<close>: \<^verbatim>\<open>KeyError\<close> at an
  event without \<^verbatim>\<open>date_range\<close>.
\<close>

fun relevant_events :: "event list \<Rightarrow> string \<Rightarrow> error + event list" where
  "relevant_events [] d = Inr []"
| "relevant_events (e # es) d =
     (case date_range e of
        None \<Rightarrow> Inl KeyError
      | Some r \<Rightarrow> ebind (relevant_events es d) (\<lambda>rs. Inr (if prefix d r then e # rs else rs)))"

text \<open>\<^verbatim>\<open>e.get('impact_score', 1.0)\<close> and \<^verbatim>\<open>max(xs, default=1.0)\<close>.\<close>

definition get_impact_score :: "event \<Rightarrow> real" where
  "get_impact_score e = (case impact_score e of None \<Rightarrow> 1 | Some x \<Rightarrow> x)"

definition max_default :: "real list \<Rightarrow> real \<Rightarrow> real" where
  "max_default xs d = (case xs of [] \<Rightarrow> d | x # xs' \<Rightarrow> foldl max x xs')"

definition event_impact :: "event list \<Rightarrow> datetime \<Rightarrow> error + real" where
  "event_impact events current =
     ebind (relevant_events events (strftime_date current)) (\<lambda>rel.
     Inr (max_default (map get_impact_score rel) 1))"

text \<open>One record: the metrics first, then the fields of the dictionary in order.\<close>

definition generate_record :: "datetime \<Rightarrow> real \<Rightarrow> rng \<Rightarrow> error + (traffic_record \<times> rng)" where
  "generate_record current impact g =
     (case generate_traffic_metrics current impact g of (m, g1) \<Rightarrow>
      ebind (generate_ip ''qatar_isps'' g1) (\<lambda>(sip, g2).
      ebind (generate_ip ''cdns'' g2) (\<lambda>(dip, g3).
      ebind (randint 1024 65535 g3) (\<lambda>(sp, g4).
      ebind (choice common_ports_values g4) (\<lambda>(dp, g5).
      ebind (choice_p protocols_keys protocols_values g5) (\<lambda>(pr, g6).
      Inr (\<lparr>bytes = bytes m, packets = packets m, duration = duration m,
             latency = latency m, packet_loss = packet_loss m,
             timestamp = strftime_full current, source_ip = sip, dest_ip = dip,
             source_port = sp, dest_port = dp, protocol = pr\<rparr>, g6)))))))"

text \<open>\<^verbatim>\<open>for _ in range(num_records)\<close>: each record is appended to \<open>all_records\<close>.\<close>

fun generate_records ::
  "nat \<Rightarrow> datetime \<Rightarrow> real \<Rightarrow> traffic_record list \<Rightarrow> rng \<Rightarrow> error + (traffic_record list \<times> rng)"
where
  "generate_records 0 current impact all_records g = Inr (all_records, g)"
| "generate_records (Suc n) current impact all_records g =
     ebind (generate_record current impact g) (\<lambda>(r, g').
     generate_records n current impact (all_records @ [r]) g')"

text \<open>
  The state of the \<^verbatim>\<open>while\<close> loop of \<^verbatim>\<open>generate_traffic_data\<close>: the loop variables,
  the files written so far and the random source.
\<close>

record gen_state =
  current :: datetime
  all_records :: "traffic_record list"
  files :: "csv_file list"
  source :: rng

text \<open>One pass through the body of the loop: one hour bucket.\<close>

definition hour_step :: "event list \<Rightarrow> gen_state \<Rightarrow> error + gen_state" where
  "hour_step events s =
     ebind (event_impact events (current s)) (\<lambda>impact.
     ebind (randint 300 2000 (source s)) (\<lambda>(num_records, g1).
     ebind (generate_records (nat num_records) (current s) impact (all_records s) g1)
       (\<lambda>(recs, g2).
     ebind (add_hour (current s)) (\<lambda>current'.
       if length recs \<ge> 50000
       then ebind (save_batch recs (strftime_compact current') (files s)) (\<lambda>fs.
              Inr \<lparr>current = current', all_records = [], files = fs, source = g2\<rparr>)
       else Inr \<lparr>current = current', all_records = recs, files = files s, source = g2\<rparr>))))"

function generate_loop :: "event list \<Rightarrow> datetime \<Rightarrow> gen_state \<Rightarrow> error + gen_state" where
  "generate_loop events end_date s =
     (if current s < end_date
      then (case hour_step events s of
              Inl e \<Rightarrow> Inl e
            | Inr s' \<Rightarrow> generate_loop events end_date s')
      else Inr s)"
  by pat_completeness auto
termination
proof (relation "measure (\<lambda>(events, end_date, s). end_date - current s)")
  show "wf (measure (\<lambda>(events, end_date, s). end_date - current s))"
    by simp
next
  fix events :: "event list" and end_date :: datetime and s s' :: gen_state
  assume lt: "current s < end_date" and step: "hour_step events s = Inr s'"
  from step have "current s' = current s + us_per_hour"
    by (auto simp: hour_step_def ebind_def add_hour_def
             split: sum.splits if_splits prod.splits)
  with lt show "((events, end_date, s'), (events, end_date, s))
      \<in> measure (\<lambda>(events, end_date, s). end_date - current s)"
    by (simp add: us_per_hour_def)
qed

declare generate_loop.simps [simp del]

text \<open>
  \<^verbatim>\<open>generate_traffic_data\<close>: the value returned is \<open>all_records\<close> of the final state;
  \<open>files\<close> are the batches written meanwhile. The progress bar has no effect on either.
\<close>

definition generate_traffic_data ::
  "event list \<Rightarrow> datetime \<Rightarrow> datetime \<Rightarrow> rng \<Rightarrow> error + gen_state" where
  "generate_traffic_data events start_date end_date g =
     generate_loop events end_date
       \<lparr>current = start_date, all_records = [], files = [], source = g\<rparr>"

section \<open>Concrete inputs\<close>

text \<open>
  Two random sources for concrete runs. \<open>night_source\<close> delivers the log-normal
  variate \<open>2\<close>, a base volume of 2000 bytes. \<open>steady_source\<close> delivers the same
  variates for ever: every bucket gets 1999 records.
\<close>

definition night_source :: rng where
  "night_source = \<lparr>ints = (\<lambda>_. 0), reals = (\<lambda>_. 2)\<rparr>"

definition steady_source :: rng where
  "steady_source = \<lparr>ints = (\<lambda>_. 1699), reals = (\<lambda>_. 1 / 2)\<rparr>"

definition steady_record :: "datetime \<Rightarrow> real \<Rightarrow> traffic_record" where
  "steady_record t impact =
     (let m = fst (generate_traffic_metrics t impact steady_source)
      in \<lparr>bytes = bytes m, packets = packets m, duration = duration m,
           latency = latency m, packet_loss = packet_loss m,
           timestamp = strftime_full t, source_ip = ''37.208.6.163'',
           dest_ip = ''199.27.134.163'', source_port = 2723, dest_port = 3074,
           protocol = ''TCP''\<rparr>)"

text \<open>The records of \<open>k\<close> buckets from \<open>t\<close> on, under \<open>steady_source\<close> and no event.\<close>

fun steady_buckets :: "nat \<Rightarrow> datetime \<Rightarrow> traffic_record list" where
  "steady_buckets 0 t = []"
| "steady_buckets (Suc k) t = replicate 1999 (steady_record t 1) @ steady_buckets k (t + us_per_hour)"

text \<open>
  The final states of two runs on \<open>steady_source\<close> without events: 26 buckets from
  2024-01-01 22:00, which flush once, and 2 buckets from 2024-01-01 00:00.
\<close>

definition steady_flush_result :: gen_state where
  "steady_flush_result =
     \<lparr>current = datetime_of 2024 1 3 0, all_records = [],
      files = [\<lparr>filename = ''traffic_data_batch_20240103.csv'',
                header = [''timestamp'', ''source_ip'', ''dest_ip'', ''source_port'',
                  ''dest_port'', ''protocol'', ''bytes'', ''packets'', ''duration'',
                  ''latency'', ''packet_loss''],
                rows = steady_buckets 26 (datetime_of 2024 1 1 22)\<rparr>],
      source = steady_source\<rparr>"

definition steady_two_result :: gen_state where
  "steady_two_result =
     \<lparr>current = datetime_of 2024 1 1 2,
      all_records = steady_buckets 2 (datetime_of 2024 1 1 0),
      files = [], source = steady_source\<rparr>"

text \<open>The first bucket of the second run: the state before it and the state after it.\<close>

definition steady_first_state :: gen_state where
  "steady_first_state =
     \<lparr>current = datetime_of 2024 1 1 0, all_records = [], files = [],
      source = steady_source\<rparr>"

definition steady_second_state :: gen_state where
  "steady_second_state =
     \<lparr>current = datetime_of 2024 1 1 0 + us_per_hour,
      all_records = replicate 1999 (steady_record (datetime_of 2024 1 1 0) 1),
      files = [], source = steady_source\<rparr>"

text \<open>
  An event calendar: two events whose \<^verbatim>\<open>date_range\<close> starts with 2024-01-01, one of
  them without a score, and one event of another day.
\<close>

definition sample_events :: "event list" where
  "sample_events =
     [\<lparr>event_name = ''Expo'', date_range = Some ''2024-01-01 - 2024-01-05'',
       impact_score = Some (3 / 2)\<rparr>,
      \<lparr>event_name = ''Fair'', date_range = Some ''2024-01-01'', impact_score = None\<rparr>,
      \<lparr>event_name = ''Cup'', date_range = Some ''2024-02-01'', impact_score = Some 2\<rparr>]"

text \<open>An event dictionary without the key \<^verbatim>\<open>date_range\<close>.\<close>

definition undated_event :: event where
  "undated_event = \<lparr>event_name = ''Expo'', date_range = None, impact_score = Some 2\<rparr>"

section \<open>Basic facts\<close>

lemma ebind_Inr_iff: "ebind m f = Inr y \<longleftrightarrow> (\<exists>x. m = Inr x \<and> f x = Inr y)"
  by (cases m) (simp_all add: ebind_def)

lemma ebind_Inl_iff: "ebind m f = Inl e \<longleftrightarrow> m = Inl e \<or> (\<exists>x. m = Inr x \<and> f x = Inl e)"
  by (cases m) (simp_all add: ebind_def)

lemma ebind_Inr [simp]: "ebind (Inr x) f = f x"
  by (simp add: ebind_def)

lemma ebind_Inl [simp]: "ebind (Inl e) f = Inl e"
  by (simp add: ebind_def)

lemma add_hour_Inr: "add_hour t = Inr t' \<Longrightarrow> t' = t + us_per_hour"
  by (auto simp: add_hour_def split: if_splits)

lemma hour_step_current:
  assumes "hour_step events s = Inr s'"
  shows "current s' = current s + us_per_hour"
  using assms
  by (auto simp: hour_step_def ebind_Inr_iff dest!: add_hour_Inr split: if_splits)

section \<open>The samplers\<close>

lemma randint_range:
  assumes "randint low high g = Inr (n, g')"
  shows "low \<le> n \<and> n < high"
proof -
  from assms have lt: "low < high"
    by (auto simp: randint_def split: if_splits)
  from assms lt obtain k where n: "n = low + int (k mod nat (high - low))"
    by (auto simp: randint_def split: if_splits prod.splits)
  from lt have "k mod nat (high - low) < nat (high - low)"
    by simp
  with n lt show ?thesis by linarith
qed

lemma randint_ok:
  assumes "low < high"
  shows "\<exists>n g'. randint low high g = Inr (n, g')"
  using assms by (cases "next_int g") (simp add: randint_def)

lemma ip_ranges_blocks:
  assumes "ip_ranges pool = Some blocks"
  shows "blocks \<noteq> [] \<and> (\<forall>net\<in>set blocks. prefixlen net \<le> 21)"
  using assms by (auto simp: ip_ranges_def cidr_def split: if_splits)

lemma num_addresses_ge:
  assumes "prefixlen net \<le> 21"
  shows "2048 \<le> num_addresses net"
proof -
  have "(2::nat) ^ 11 \<le> 2 ^ (32 - prefixlen net)"
    using assms by (intro power_increasing) auto
  then show ?thesis by (simp add: num_addresses_def)
qed

lemma choice_member:
  assumes "a \<noteq> []"
  shows "\<exists>x g'. choice a g = Inr (x, g') \<and> x \<in> set a"
  using assms by (auto simp: choice_def split: prod.splits)

lemma generate_ip_host_ok:
  assumes "ip_ranges pool = Some blocks"
  shows "\<exists>net host g'. generate_ip_host pool g = Inr ((net, host), g') \<and> net \<in> set blocks
           \<and> 0 \<le> host \<and> host < int (num_addresses net) - 1"
proof -
  from ip_ranges_blocks [OF assms] have ne: "blocks \<noteq> []"
    and pl: "\<forall>net\<in>set blocks. prefixlen net \<le> 21" by auto
  from choice_member [OF ne] obtain net g1 where c: "choice blocks g = Inr (net, g1)"
    and mem: "net \<in> set blocks" by blast
  from pl mem have "2048 \<le> num_addresses net" by (simp add: num_addresses_ge)
  then have lt: "(0::int) < int (num_addresses net) - 1" by simp
  from randint_ok [OF this] obtain host g2
    where r: "randint 0 (int (num_addresses net) - 1) g1 = Inr (host, g2)" by blast
  from randint_range [OF r] have "0 \<le> host" "host < int (num_addresses net) - 1" by auto
  with c r mem assms show ?thesis
    by (auto simp: generate_ip_host_def)
qed

lemma generate_ip_address:
  assumes "ip_ranges pool = Some blocks"
  shows "\<exists>net a g'. net \<in> set blocks \<and> generate_ip pool g = Inr (ip_str a, g')
           \<and> network_address net \<le> a
           \<and> a < network_address net + num_addresses net
           \<and> a \<noteq> network_address net + (num_addresses net - 1)"
proof -
  from generate_ip_host_ok [OF assms] obtain net host g'
    where h: "generate_ip_host pool g = Inr ((net, host), g')" and mem: "net \<in> set blocks"
      and lo: "0 \<le> host" and hi: "host < int (num_addresses net) - 1" by blast
  from lo hi have idx: "network_index net host = Inr (network_address net + nat host)"
    by (simp add: network_index_def)
  from h idx have "generate_ip pool g = Inr (ip_str (network_address net + nat host), g')"
    by (simp add: generate_ip_def)
  moreover from lo hi have "network_address net + nat host < network_address net + num_addresses net"
    and "network_address net + nat host \<noteq> network_address net + (num_addresses net - 1)"
    by linarith+
  ultimately show ?thesis using mem by (intro exI [of _ net] exI [of _ "network_address net + nat host"] exI [of _ g']) simp
qed

text \<open>
  C7. For each of the three configured pools, \<^verbatim>\<open>generate_ip\<close> succeeds and returns the
  dotted quad of an address \<open>a\<close> of one of the pool's blocks; \<open>a\<close> is never the last
  address of that block (offset \<open>num_addresses - 1\<close>), because the offset is drawn by
  \<^verbatim>\<open>randint(0, num_addresses - 1)\<close>, whose upper bound is exclusive.
\<close>

theorem generate_ip_in_block:
  assumes "ip_ranges pool = Some blocks"
  shows "\<exists>net a g'. net \<in> set blocks \<and> generate_ip pool g = Inr (ip_str a, g')
           \<and> network_address net \<le> a
           \<and> a < network_address net + num_addresses net
           \<and> a \<noteq> network_address net + (num_addresses net - 1)"
  using assms by (rule generate_ip_address)

theorem generate_ip_in_block_witness:
  "ip_ranges ''qatar_isps'' = Some [cidr 178 152 0 0 15, cidr 37 208 0 0 13, cidr 82 148 96 0 19]
   \<and> (\<exists>net a g'. net \<in> set [cidr 178 152 0 0 15, cidr 37 208 0 0 13, cidr 82 148 96 0 19]
          \<and> generate_ip ''qatar_isps'' steady_source = Inr (ip_str a, g')
          \<and> network_address net \<le> a
          \<and> a < network_address net + num_addresses net
          \<and> a \<noteq> network_address net + (num_addresses net - 1))"
proof -
  have h: "ip_ranges ''qatar_isps''
             = Some [cidr 178 152 0 0 15, cidr 37 208 0 0 13, cidr 82 148 96 0 19]"
    by (simp add: ip_ranges_def)
  from generate_ip_in_block [OF h, of steady_source] h show ?thesis
    by blast
qed

lemma pick_protocol:
  assumes "0 \<le> u" "u < 1"
  shows "\<exists>x. pick_weighted protocols_keys protocols_values 0 u = Inr x"
  using assms by (simp add: protocols_keys_def protocols_values_def)

lemma choice_p_protocol: "\<exists>x g'. choice_p protocols_keys protocols_values g = Inr (x, g')"
proof -
  obtain x g' where n: "next_real g = (x, g')" by (cases "next_real g")
  have "0 \<le> frac x" "frac x < 1" by (simp_all add: frac_lt_1)
  from pick_protocol [OF this] obtain y
    where "pick_weighted protocols_keys protocols_values 0 (frac x) = Inr y" by blast
  with n show ?thesis
    by (simp add: choice_p_def protocols_keys_def protocols_values_def)
qed

section \<open>One bucket, and the loop\<close>

lemma generate_ip_ok:
  assumes "ip_ranges pool = Some blocks"
  shows "\<exists>a g'. generate_ip pool g = Inr (a, g')"
  using generate_ip_address [OF assms, of g] by blast

lemma generate_record_ok:
  "\<exists>r g'. generate_record t i g = Inr (r, g') \<and> timestamp r = strftime_full t
     \<and> 1024 \<le> source_port r \<and> source_port r \<le> 65534"
proof -
  obtain m g1 where m: "generate_traffic_metrics t i g = (m, g1)"
    by (cases "generate_traffic_metrics t i g")
  have "ip_ranges ''qatar_isps'' \<noteq> None" "ip_ranges ''cdns'' \<noteq> None"
    by (simp_all add: ip_ranges_def)
  then obtain b1 b2 where b: "ip_ranges ''qatar_isps'' = Some b1" "ip_ranges ''cdns'' = Some b2"
    by auto
  from generate_ip_ok [OF b(1)] obtain sip g2
    where sip: "generate_ip ''qatar_isps'' g1 = Inr (sip, g2)" by blast
  from generate_ip_ok [OF b(2)] obtain dip g3
    where dip: "generate_ip ''cdns'' g2 = Inr (dip, g3)" by blast
  have "(1024::int) < 65535" by simp
  from randint_ok [OF this] obtain sp g4
    where sp: "randint 1024 65535 g3 = Inr (sp, g4)" by blast
  from randint_range [OF sp] have spr: "1024 \<le> sp" "sp \<le> 65534" by auto
  have "common_ports_values \<noteq> []" by (simp add: common_ports_values_def)
  from choice_member [OF this] obtain dp g5
    where dp: "choice common_ports_values g4 = Inr (dp, g5)" by blast
  from choice_p_protocol obtain pr g6
    where pr: "choice_p protocols_keys protocols_values g5 = Inr (pr, g6)" by blast
  show ?thesis
    using spr by (simp add: generate_record_def m sip dip sp dp pr)
qed

lemma generate_records_ok:
  "\<exists>new g'. generate_records n t i recs g = Inr (recs @ new, g') \<and> length new = n
     \<and> (\<forall>r\<in>set new. timestamp r = strftime_full t)"
proof (induction n arbitrary: recs g)
  case 0
  then show ?case by simp
next
  case (Suc n)
  from generate_record_ok [of t i g] obtain r g1
    where r: "generate_record t i g = Inr (r, g1)" and ts: "timestamp r = strftime_full t"
    by blast
  from Suc [of "recs @ [r]" g1] obtain new g'
    where n: "generate_records n t i (recs @ [r]) g1 = Inr ((recs @ [r]) @ new, g')"
      and len: "length new = n" and all: "\<forall>r\<in>set new. timestamp r = strftime_full t"
    by blast
  show ?case
    using r n len all ts
    by (intro exI [of _ "r # new"] exI [of _ g']) simp
qed

lemma save_batch_nonempty:
  assumes "recs \<noteq> []"
  shows "save_batch recs b fs = Inr (fs @ [\<lparr>filename = ''traffic_data_batch_'' @ b @ ''.csv'',
           header = keys (hd recs), rows = recs\<rparr>])"
  using assms by (cases recs) (simp_all add: save_batch_def)

lemma hour_step_cases:
  assumes "hour_step events s = Inr s'"
  shows "\<exists>new. 300 \<le> length new \<and> length new \<le> 1999
           \<and> (\<forall>r\<in>set new. timestamp r = strftime_full (current s))
           \<and> current s' = current s + us_per_hour
           \<and> (if 50000 \<le> length (all_records s) + length new
               then all_records s' = []
                    \<and> files s' = files s @
                        [\<lparr>filename = ''traffic_data_batch_''
                             @ strftime_compact (current s + us_per_hour) @ ''.csv'',
                          header = keys (hd (all_records s @ new)),
                          rows = all_records s @ new\<rparr>]
               else all_records s' = all_records s @ new \<and> files s' = files s)"
proof -
  from assms obtain impact n g1 recs g2 t'
    where n: "randint 300 2000 (source s) = Inr (n, g1)"
      and recs: "generate_records (nat n) (current s) impact (all_records s) g1 = Inr (recs, g2)"
      and t': "add_hour (current s) = Inr t'"
      and rest: "(if length recs \<ge> 50000
                  then ebind (save_batch recs (strftime_compact t') (files s)) (\<lambda>fs.
                         Inr \<lparr>current = t', all_records = [], files = fs, source = g2\<rparr>)
                  else Inr \<lparr>current = t', all_records = recs, files = files s, source = g2\<rparr>)
                 = Inr s'"
    by (auto simp: hour_step_def ebind_Inr_iff)
  from randint_range [OF n] have nr: "300 \<le> n" "n \<le> 1999" by auto
  from generate_records_ok [of "nat n" "current s" impact "all_records s" g1] recs
  obtain new where new: "recs = all_records s @ new" and len: "length new = nat n"
    and ts: "\<forall>r\<in>set new. timestamp r = strftime_full (current s)"
    by auto
  from add_hour_Inr [OF t'] have t'eq: "t' = current s + us_per_hour" .
  from len nr have lens: "300 \<le> length new" "length new \<le> 1999" by auto
  then have ne: "all_records s @ new \<noteq> []" by auto
  show ?thesis
  proof (cases "50000 \<le> length (all_records s) + length new")
    case True
    with rest new t'eq save_batch_nonempty [OF ne]
    have "s' = \<lparr>current = current s + us_per_hour, all_records = [],
                files = files s @ [\<lparr>filename = ''traffic_data_batch_''
                             @ strftime_compact (current s + us_per_hour) @ ''.csv'',
                          header = keys (hd (all_records s @ new)),
                          rows = all_records s @ new\<rparr>], source = g2\<rparr>"
      by simp
    with True lens ts show ?thesis
      by (intro exI [of _ new]) simp
  next
    case False
    with rest new t'eq
    have "s' = \<lparr>current = current s + us_per_hour, all_records = all_records s @ new,
                files = files s, source = g2\<rparr>"
      by simp
    with False lens ts show ?thesis
      by (intro exI [of _ new]) simp
  qed
qed

lemma generate_loop_invariant:
  assumes "generate_loop events end_date s = Inr r"
    and "P s"
    and "\<And>s s'. P s \<Longrightarrow> current s < end_date \<Longrightarrow> hour_step events s = Inr s' \<Longrightarrow> P s'"
  shows "P r \<and> end_date \<le> current r"
  using assms
proof (induction events end_date s rule: generate_loop.induct)
  case (1 events end_date s)
  show ?case
  proof (cases "current s < end_date")
    case True
    with "1.prems"(1) obtain s' where step: "hour_step events s = Inr s'"
      and rest: "generate_loop events end_date s' = Inr r"
      by (subst (asm) generate_loop.simps) (auto split: sum.splits)
    from "1.prems"(3) [OF "1.prems"(2) True step] have "P s'" .
    from "1.IH" [OF True step rest this "1.prems"(3)] show ?thesis .
  next
    case False
    with "1.prems" show ?thesis
      by (subst (asm) generate_loop.simps) auto
  qed
qed

lemma relevant_events_error:
  assumes "relevant_events events d = Inl e"
  shows "e = KeyError"
  using assms
  by (induction events arbitrary: e) (auto simp: ebind_Inl_iff split: option.splits)

lemma hour_step_error:
  assumes "hour_step events s = Inl e"
  shows "e = KeyError \<or> e = OverflowError"
proof -
  have r: "\<And>g. \<exists>n g1. randint 300 2000 g = Inr (n, g1)"
    by (rule randint_ok) simp
  show ?thesis
  proof (cases "event_impact events (current s)")
    case (Inl e')
    with assms have "e = e'" by (simp add: hour_step_def)
    with Inl show ?thesis
      by (auto simp: event_impact_def ebind_Inl_iff dest: relevant_events_error)
  next
    case (Inr impact)
    from r obtain n g1 where n: "randint 300 2000 (source s) = Inr (n, g1)" by blast
    from generate_records_ok [of "nat n" "current s" impact "all_records s" g1]
    obtain new g2 where recs: "generate_records (nat n) (current s) impact (all_records s) g1
        = Inr (all_records s @ new, g2)" and len: "length new = nat n" by blast
    show ?thesis
    proof (cases "add_hour (current s)")
      case (Inl e')
      with assms Inr n recs have "e = e'" by (simp add: hour_step_def)
      with Inl show ?thesis by (auto simp: add_hour_def split: if_splits)
    next
      case t': (Inr t')
      show ?thesis
      proof (cases "50000 \<le> length (all_records s @ new)")
        case True
        then have "all_records s @ new \<noteq> []" by auto
        from save_batch_nonempty [OF this] assms Inr n recs t' True show ?thesis
          by (simp add: hour_step_def)
      next
        case False
        with assms Inr n recs t' show ?thesis by (simp add: hour_step_def)
      qed
    qed
  qed
qed

lemma generate_loop_error:
  assumes "generate_loop events end_date s = Inl e"
  shows "e = KeyError \<or> e = OverflowError"
  using assms
proof (induction events end_date s rule: generate_loop.induct)
  case (1 events end_date s)
  from "1.prems" have lt: "current s < end_date"
    by (subst (asm) generate_loop.simps) (auto split: if_splits)
  show ?case
  proof (cases "hour_step events s")
    case (Inl e')
    with lt "1.prems" have "e = e'"
      by (subst (asm) generate_loop.simps) simp
    with Inl hour_step_error show ?thesis by blast
  next
    case (Inr s')
    with lt "1.prems" have "generate_loop events end_date s' = Inl e"
      by (subst (asm) generate_loop.simps) simp
    from "1.IH" [OF lt Inr this] show ?thesis .
  qed
qed

lemma files_invariant:
  assumes "generate_traffic_data events start_date end_date g = Inr r"
  shows "\<forall>f\<in>set (files r).
           50000 \<le> length (rows f) \<and> length (rows f) \<le> 51998 \<and> header f = keys (hd (rows f))
           \<and> (\<exists>t. start_date \<le> t \<and> t < end_date
                 \<and> timestamp (last (rows f)) = strftime_full t
                 \<and> filename f = ''traffic_data_batch_'' @ strftime_compact (t + us_per_hour) @ ''.csv'')"
    and "length (all_records r) < 50000"
proof -
  let ?ok = "\<lambda>f. 50000 \<le> length (rows f) \<and> length (rows f) \<le> 51998 \<and> header f = keys (hd (rows f))
           \<and> (\<exists>t. start_date \<le> t \<and> t < end_date
                 \<and> timestamp (last (rows f)) = strftime_full t
                 \<and> filename f = ''traffic_data_batch_'' @ strftime_compact (t + us_per_hour) @ ''.csv'')"
  let ?P = "\<lambda>s. start_date \<le> current s \<and> length (all_records s) < 50000
              \<and> (\<forall>f\<in>set (files s). ?ok f)"
  let ?s0 = "\<lparr>current = start_date, all_records = [], files = [], source = g\<rparr>"
  have init: "?P ?s0" by simp
  have step: "?P s'" if P: "?P s" and lt: "current s < end_date"
    and st: "hour_step events s = Inr s'" for s s'
  proof -
    from hour_step_cases [OF st] obtain new
      where lo: "300 \<le> length new" and hi: "length new \<le> 1999"
        and ts: "\<forall>r\<in>set new. timestamp r = strftime_full (current s)"
        and cur: "current s' = current s + us_per_hour"
        and eff: "if 50000 \<le> length (all_records s) + length new
               then all_records s' = []
                    \<and> files s' = files s @
                        [\<lparr>filename = ''traffic_data_batch_''
                             @ strftime_compact (current s + us_per_hour) @ ''.csv'',
                          header = keys (hd (all_records s @ new)),
                          rows = all_records s @ new\<rparr>]
               else all_records s' = all_records s @ new \<and> files s' = files s"
      by blast
    from lo have ne: "new \<noteq> []" by auto
    with ts have lastts: "timestamp (last (all_records s @ new)) = strftime_full (current s)"
      by simp
    show ?thesis
    proof (cases "50000 \<le> length (all_records s) + length new")
      case True
      with eff have a: "all_records s' = []"
        and f: "files s' = files s @
                        [\<lparr>filename = ''traffic_data_batch_''
                             @ strftime_compact (current s + us_per_hour) @ ''.csv'',
                          header = keys (hd (all_records s @ new)),
                          rows = all_records s @ new\<rparr>]" by auto
      have "?ok \<lparr>filename = ''traffic_data_batch_''
                             @ strftime_compact (current s + us_per_hour) @ ''.csv'',
                          header = keys (hd (all_records s @ new)),
                          rows = all_records s @ new\<rparr>"
        using True hi P lt lastts by auto
      with P a f cur show ?thesis by auto
    next
      case False
      with eff P cur show ?thesis by auto
    qed
  qed
  from assms have "generate_loop events end_date ?s0 = Inr r"
    by (simp add: generate_traffic_data_def)
  then have "?P r \<and> end_date \<le> current r"
  proof (rule generate_loop_invariant [where P = ?P])
    show "?P ?s0" by (rule init)
  next
    fix s s' :: gen_state
    assume "?P s" and "current s < end_date" and "hour_step events s = Inr s'"
    then show "?P s'" by (rule step)
  qed
  then show "\<forall>f\<in>set (files r). ?ok f" and "length (all_records r) < 50000"
    by blast+
qed

section \<open>Runs on the steady source\<close>

lemma next_int_steady: "next_int steady_source = (1699, steady_source)"
  by (simp add: next_int_def steady_source_def)

lemma next_real_steady: "next_real steady_source = (1 / 2, steady_source)"
  by (simp add: next_real_def steady_source_def)

lemma metrics_steady: "snd (generate_traffic_metrics t i steady_source) = steady_source"
  by (simp add: generate_traffic_metrics_def lognormal_def beta_def next_real_steady Let_def)

lemma host_steady_isp:
  "generate_ip_host ''qatar_isps'' steady_source = Inr ((cidr 37 208 0 0 13, 1699), steady_source)"
  by (simp add: generate_ip_host_def ip_ranges_def choice_def randint_def next_int_steady
      num_addresses_def cidr_def)

lemma host_steady_cdn:
  "generate_ip_host ''cdns'' steady_source = Inr ((cidr 199 27 128 0 21, 1699), steady_source)"
  by (simp add: generate_ip_host_def ip_ranges_def choice_def randint_def next_int_steady
      num_addresses_def cidr_def numeral_2_eq_2 [symmetric])

lemma index_steady_isp: "network_index (cidr 37 208 0 0 13) 1699 = Inr 634390179"
  by (simp add: network_index_def num_addresses_def cidr_def)

lemma index_steady_cdn: "network_index (cidr 199 27 128 0 21) 1699 = Inr 3340469923"
  by (simp add: network_index_def num_addresses_def cidr_def)

lemma ip_str_isp: "ip_str 634390179 = ''37.208.6.163''"
  by (simp add: ip_str_def str_nat.simps digit_def)

lemma ip_str_cdn: "ip_str 3340469923 = ''199.27.134.163''"
  by (simp add: ip_str_def str_nat.simps digit_def)

lemma generate_ip_steady_isp:
  "generate_ip ''qatar_isps'' steady_source = Inr (''37.208.6.163'', steady_source)"
  by (simp add: generate_ip_def host_steady_isp index_steady_isp ip_str_isp)

lemma generate_ip_steady_cdn:
  "generate_ip ''cdns'' steady_source = Inr (''199.27.134.163'', steady_source)"
  by (simp add: generate_ip_def host_steady_cdn index_steady_cdn ip_str_cdn)

lemma generate_record_steady:
  "generate_record t i steady_source = Inr (steady_record t i, steady_source)"
proof -
  obtain m g1 where m: "generate_traffic_metrics t i steady_source = (m, g1)"
    by (cases "generate_traffic_metrics t i steady_source")
  with metrics_steady [of t i] have g1: "g1 = steady_source" by simp
  show ?thesis
    unfolding generate_record_def m g1
    by (simp add: generate_ip_steady_isp generate_ip_steady_cdn randint_def choice_def
        choice_p_def next_int_steady next_real_steady common_ports_values_def
        protocols_keys_def protocols_values_def steady_record_def m)
qed

lemma generate_records_steady:
  "generate_records n t i recs steady_source
     = Inr (recs @ replicate n (steady_record t i), steady_source)"
  by (induction n arbitrary: recs) (simp_all add: generate_record_steady replicate_app_Cons_same)

lemma event_impact_empty: "event_impact [] t = Inr 1"
  by (simp add: event_impact_def max_default_def)

lemma length_steady_buckets: "length (steady_buckets k t) = 1999 * k"
  by (induction k arbitrary: t) simp_all

lemma hour_step_steady:
  assumes "current s + us_per_hour < MAXORDINAL * us_per_day"
    and "source s = steady_source"
  shows "hour_step [] s =
     (if 50000 \<le> length (all_records s) + 1999
      then Inr \<lparr>current = current s + us_per_hour, all_records = [],
                files = files s @
                  [\<lparr>filename = ''traffic_data_batch_''
                       @ strftime_compact (current s + us_per_hour) @ ''.csv'',
                    header = keys (hd (all_records s @ replicate 1999 (steady_record (current s) 1))),
                    rows = all_records s @ replicate 1999 (steady_record (current s) 1)\<rparr>],
                source = steady_source\<rparr>
      else Inr \<lparr>current = current s + us_per_hour,
                all_records = all_records s @ replicate 1999 (steady_record (current s) 1),
                files = files s, source = steady_source\<rparr>)"
proof -
  have n: "randint 300 2000 steady_source = Inr (1999, steady_source)"
    by (simp add: randint_def next_int_steady)
  have ne: "all_records s @ replicate 1999 (steady_record (current s) 1) \<noteq> []"
    by simp
  show ?thesis
    using assms
    by (simp add: hour_step_def event_impact_empty n generate_records_steady add_hour_def
        save_batch_nonempty [OF ne])
qed


lemma generate_loop_steady_fill:
  assumes "source s = steady_source"
    and "length (all_records s) + 1999 * k < 50000"
    and "current s + k * us_per_hour \<le> end_date"
    and "end_date < MAXORDINAL * us_per_day"
  shows "generate_loop [] end_date s =
         generate_loop [] end_date
           \<lparr>current = current s + k * us_per_hour,
            all_records = all_records s @ steady_buckets k (current s),
            files = files s, source = steady_source\<rparr>"
  using assms
proof (induction k arbitrary: s)
  case 0
  then show ?case by (cases s) simp
next
  case (Suc k)
  let ?s' = "\<lparr>current = current s + us_per_hour,
              all_records = all_records s @ replicate 1999 (steady_record (current s) 1),
              files = files s, source = steady_source\<rparr>"
  from Suc.prems have lt: "current s < end_date"
    by (simp add: us_per_hour_def)
  from Suc.prems have ov: "current s + us_per_hour < MAXORDINAL * us_per_day"
    by simp
  from Suc.prems have nf: "\<not> 50000 \<le> length (all_records s) + 1999"
    by simp
  have step: "hour_step [] s = Inr ?s'"
    using hour_step_steady [OF ov Suc.prems(1)] nf by simp
  have "generate_loop [] end_date s = generate_loop [] end_date ?s'"
    using lt step by (subst generate_loop.simps) simp
  also have "\<dots> = generate_loop [] end_date
           \<lparr>current = current ?s' + k * us_per_hour,
            all_records = all_records ?s' @ steady_buckets k (current ?s'),
            files = files ?s', source = steady_source\<rparr>"
    using Suc.prems by (intro Suc.IH) simp_all
  finally show ?case by (simp add: algebra_simps)
qed

lemma steady_buckets_snoc:
  "steady_buckets (Suc k) t =
     steady_buckets k t @ replicate 1999 (steady_record (t + k * us_per_hour) 1)"
proof (induction k arbitrary: t)
  case 0
  then show ?case by simp
next
  case (Suc k)
  have "steady_buckets (Suc (Suc k)) t =
          replicate 1999 (steady_record t 1) @ steady_buckets (Suc k) (t + us_per_hour)"
    by simp
  also have "\<dots> = replicate 1999 (steady_record t 1) @ steady_buckets k (t + us_per_hour)
      @ replicate 1999 (steady_record (t + us_per_hour + k * us_per_hour) 1)"
    by (simp only: Suc.IH)
  finally show ?case by (simp add: algebra_simps)
qed

lemma datetime_values:
  "datetime_of 2024 1 1 0 = 63839664000000000"
  "datetime_of 2024 1 1 2 = 63839671200000000"
  "datetime_of 2024 1 1 22 = 63839743200000000"
  "datetime_of 2024 1 3 0 = 63839836800000000"
  by (simp_all add: datetime_of_def days_before_year_def days_before_month_def
      DAYS_BEFORE_MONTH_def us_per_day_def us_per_hour_def)

lemma steady_run_two:
  "generate_traffic_data [] (datetime_of 2024 1 1 0) (datetime_of 2024 1 1 2) steady_source =
     Inr steady_two_result"
proof -
  let ?s = "\<lparr>current = datetime_of 2024 1 1 0, all_records = [], files = [],
             source = steady_source\<rparr>"
  have "generate_loop [] (datetime_of 2024 1 1 2) ?s =
        generate_loop [] (datetime_of 2024 1 1 2)
          \<lparr>current = current ?s + 2 * us_per_hour,
           all_records = all_records ?s @ steady_buckets 2 (current ?s),
           files = files ?s, source = steady_source\<rparr>"
    by (rule generate_loop_steady_fill)
       (simp_all add: datetime_values us_per_hour_def us_per_day_def MAXORDINAL_def del: One_nat_def)
  also have "\<dots> = Inr \<lparr>current = datetime_of 2024 1 1 2,
          all_records = steady_buckets 2 (datetime_of 2024 1 1 0),
          files = [], source = steady_source\<rparr>"
    by (subst generate_loop.simps) (simp add: datetime_values us_per_hour_def del: One_nat_def)
  finally show ?thesis by (simp add: generate_traffic_data_def steady_two_result_def)
qed

lemma steady_run_flush:
  "generate_traffic_data [] (datetime_of 2024 1 1 22) (datetime_of 2024 1 3 0) steady_source =
     Inr steady_flush_result"
proof -
  let ?t = "datetime_of 2024 1 1 22"
  let ?e = "datetime_of 2024 1 3 0"
  let ?s = "\<lparr>current = ?t, all_records = [], files = [], source = steady_source\<rparr>"
  let ?s25 = "\<lparr>current = ?t + 25 * us_per_hour, all_records = steady_buckets 25 ?t,
               files = [], source = steady_source\<rparr>"
  have fill: "generate_loop [] ?e ?s =
        generate_loop [] ?e
          \<lparr>current = current ?s + 25 * us_per_hour,
           all_records = all_records ?s @ steady_buckets 25 (current ?s),
           files = files ?s, source = steady_source\<rparr>"
    by (rule generate_loop_steady_fill)
       (simp_all add: datetime_values us_per_hour_def us_per_day_def MAXORDINAL_def
          length_steady_buckets del: One_nat_def)
  have name: "strftime_compact (?t + 25 * us_per_hour + us_per_hour) = ''20240103''"
    by (simp add: datetime_values strftime_compact_def ymd_of_def ord2ymd_def pad2_def pad4_def
        digit_def us_per_hour_def us_per_day_def DAYS_BEFORE_MONTH_def DAYS_IN_MONTH_def Let_def del: One_nat_def)
  have rows: "steady_buckets 25 ?t @ replicate 1999 (steady_record (?t + 25 * us_per_hour) 1)
      = steady_buckets 26 ?t"
    using steady_buckets_snoc [of 25 ?t] by simp
  have step: "hour_step [] ?s25 =
     Inr \<lparr>current = ?e, all_records = [],
          files = [\<lparr>filename = ''traffic_data_batch_20240103.csv'',
                    header = [''timestamp'', ''source_ip'', ''dest_ip'', ''source_port'',
                      ''dest_port'', ''protocol'', ''bytes'', ''packets'', ''duration'',
                      ''latency'', ''packet_loss''],
                    rows = steady_buckets 26 ?t\<rparr>],
          source = steady_source\<rparr>"
    apply (subst hour_step_steady)
      apply (simp add: datetime_values us_per_hour_def us_per_day_def MAXORDINAL_def del: One_nat_def)
     apply simp
    apply (simp only: gen_state.simps name rows length_steady_buckets append_Nil keys_def)
    apply (simp add: datetime_values us_per_hour_def del: One_nat_def)
    done
  let ?f = "\<lparr>current = ?e, all_records = [],
          files = [\<lparr>filename = ''traffic_data_batch_20240103.csv'',
                    header = [''timestamp'', ''source_ip'', ''dest_ip'', ''source_port'',
                      ''dest_port'', ''protocol'', ''bytes'', ''packets'', ''duration'',
                      ''latency'', ''packet_loss''],
                    rows = steady_buckets 26 ?t\<rparr>],
          source = steady_source\<rparr>"
  have lt: "current ?s25 < ?e"
    by (simp add: datetime_values us_per_hour_def del: One_nat_def)
  have "generate_loop [] ?e ?s25 = generate_loop [] ?e ?f"
    using lt step by (subst generate_loop.simps) simp
  also have "\<dots> = Inr ?f"
    by (subst generate_loop.simps) simp
  finally have "generate_loop [] ?e ?s25 = Inr ?f" .
  with fill show ?thesis by (simp add: generate_traffic_data_def steady_flush_result_def)
qed

section \<open>Batches\<close>

lemma hd_files_flush: "hd (files steady_flush_result) \<in> set (files steady_flush_result)"
  by (simp add: steady_flush_result_def)

lemma length_rows_flush: "length (steady_buckets 26 t) = 51974"
  by (simp add: length_steady_buckets)

lemma timestamp_steady_record: "timestamp (steady_record t i) = strftime_full t"
  by (simp add: steady_record_def Let_def)

lemma last_steady_buckets:
  "last (steady_buckets (Suc k) t) = steady_record (t + k * us_per_hour) 1"
  by (simp only: steady_buckets_snoc) simp

lemma last_bucket_timestamp:
  "strftime_full (datetime_of 2024 1 1 22 + 25 * us_per_hour) = ''2024-01-02 23:00:00''"
  by (simp add: datetime_values strftime_full_def strftime_date_def ymd_of_def ord2ymd_def
      pad2_def pad4_def digit_def hour_of_def minute_of_def second_of_def us_per_hour_def
      us_per_day_def DAYS_BEFORE_MONTH_def DAYS_IN_MONTH_def Let_def del: One_nat_def)

text \<open>
  C2, as stated, fails. The length of the batch is tested once per bucket, after all the
  records of the bucket are appended, and the whole batch is written. On
  \<open>steady_source\<close> the run from 2024-01-01 22:00 to 2024-01-03 00:00 holds 49975
  records after 25 buckets and 51974 after the 26th: its only flush writes 51974 records,
  not 50000.
\<close>

theorem flush_exceeds_threshold:
  "(case generate_traffic_data [] (datetime_of 2024 1 1 22) (datetime_of 2024 1 3 0) steady_source
    of Inl e \<Rightarrow> [] | Inr s \<Rightarrow> map (\<lambda>f. length (rows f)) (files s)) = [51974]"
  by (simp only: steady_run_flush steady_flush_result_def sum.case gen_state.simps list.map
      csv_file.simps length_rows_flush)

text \<open>
  C2, amended. Whenever a run returns, every batch it has written holds at least 50000
  and at most 51998 records (fewer than 50000 before the bucket, at most 1999 added by
  it), and fewer than 50000 records are left in memory.
\<close>

theorem flush_sizes:
  assumes "generate_traffic_data events start_date end_date g = Inr s"
  shows "(\<forall>f\<in>set (files s). 50000 \<le> length (rows f) \<and> length (rows f) \<le> 51998)
         \<and> length (all_records s) < 50000"
  using files_invariant [OF assms] by blast

theorem flush_sizes_witness:
  "generate_traffic_data [] (datetime_of 2024 1 1 22) (datetime_of 2024 1 3 0) steady_source
     = Inr steady_flush_result
   \<and> 50000 \<le> length (rows (hd (files steady_flush_result)))
   \<and> length (rows (hd (files steady_flush_result))) \<le> 51998
   \<and> length (all_records steady_flush_result) < 50000"
  using flush_sizes [OF steady_run_flush] hd_files_flush steady_run_flush by blast

text \<open>
  C4, as stated, fails. In the same run the threshold is reached in the bucket
  2024-01-02 23:00 (the timestamp of the last row written), and the file is named after
  2024-01-03: \<open>current\<close> is advanced by one hour before the batch id is formatted.
\<close>

theorem batch_named_after_next_bucket:
  "(case generate_traffic_data [] (datetime_of 2024 1 1 22) (datetime_of 2024 1 3 0) steady_source
    of Inl e \<Rightarrow> []
     | Inr s \<Rightarrow> map (\<lambda>f. (filename f, timestamp (last (rows f)))) (files s))
   = [(''traffic_data_batch_20240103.csv'', ''2024-01-02 23:00:00'')]"
proof -
  have "timestamp (last (steady_buckets 26 (datetime_of 2024 1 1 22))) = ''2024-01-02 23:00:00''"
    using last_steady_buckets [of 25 "datetime_of 2024 1 1 22"]
    by (simp add: timestamp_steady_record last_bucket_timestamp del: One_nat_def)
  then show ?thesis
    by (simp only: steady_run_flush steady_flush_result_def sum.case gen_state.simps list.map
        csv_file.simps)
qed

text \<open>
  C4, amended. Every batch written by a run is named
  \<^verbatim>\<open>traffic_data_batch_<YYYYMMDD>.csv\<close> for the date of \<open>t\<close> plus one hour, where \<open>t\<close>
  is the bucket of the run in which the threshold was reached, the bucket of the last
  row of the file.
\<close>

theorem batch_file_name:
  assumes "generate_traffic_data events start_date end_date g = Inr s"
  shows "\<forall>f\<in>set (files s). \<exists>t. start_date \<le> t \<and> t < end_date
           \<and> timestamp (last (rows f)) = strftime_full t
           \<and> filename f = ''traffic_data_batch_'' @ strftime_compact (t + us_per_hour) @ ''.csv''"
  using files_invariant(1) [OF assms] by blast

theorem batch_file_name_witness:
  "generate_traffic_data [] (datetime_of 2024 1 1 22) (datetime_of 2024 1 3 0) steady_source
     = Inr steady_flush_result
   \<and> (\<exists>t. datetime_of 2024 1 1 22 \<le> t \<and> t < datetime_of 2024 1 3 0
         \<and> timestamp (last (rows (hd (files steady_flush_result)))) = strftime_full t
         \<and> filename (hd (files steady_flush_result))
             = ''traffic_data_batch_'' @ strftime_compact (t + us_per_hour) @ ''.csv'')"
  using batch_file_name [OF steady_run_flush] hd_files_flush steady_run_flush by blast

text \<open>
  C10. \<^verbatim>\<open>save_batch\<close> on an empty list raises \<^verbatim>\<open>IndexError\<close>; no run of the
  driver ends in \<^verbatim>\<open>IndexError\<close>; and every file written by a run has the eleven
  column names as header and at least 50000 rows, hence at least one.
\<close>

theorem flushed_batch_nonempty:
  "save_batch [] batch_id fs = Inl IndexError
   \<and> generate_traffic_data events start_date end_date g \<noteq> Inl IndexError
   \<and> (generate_traffic_data events start_date end_date g = Inr s \<longrightarrow>
        (\<forall>f\<in>set (files s).
           header f = [''timestamp'', ''source_ip'', ''dest_ip'', ''source_port'', ''dest_port'',
                       ''protocol'', ''bytes'', ''packets'', ''duration'', ''latency'',
                       ''packet_loss'']
           \<and> 50000 \<le> length (rows f) \<and> rows f \<noteq> []))"
proof (intro conjI impI)
  show "save_batch [] batch_id fs = Inl IndexError"
    by (simp add: save_batch_def)
next
  show "generate_traffic_data events start_date end_date g \<noteq> Inl IndexError"
    using generate_loop_error [of events end_date _ IndexError]
    by (auto simp: generate_traffic_data_def)
next
  assume "generate_traffic_data events start_date end_date g = Inr s"
  from files_invariant(1) [OF this]
  show "\<forall>f\<in>set (files s).
           header f = [''timestamp'', ''source_ip'', ''dest_ip'', ''source_port'', ''dest_port'',
                       ''protocol'', ''bytes'', ''packets'', ''duration'', ''latency'',
                       ''packet_loss'']
           \<and> 50000 \<le> length (rows f) \<and> rows f \<noteq> []"
    by (auto simp: keys_def)
qed

theorem flushed_batch_nonempty_witness:
  "generate_traffic_data [] (datetime_of 2024 1 1 22) (datetime_of 2024 1 3 0) steady_source
     = Inr steady_flush_result
   \<and> header (hd (files steady_flush_result))
       = [''timestamp'', ''source_ip'', ''dest_ip'', ''source_port'', ''dest_port'',
          ''protocol'', ''bytes'', ''packets'', ''duration'', ''latency'', ''packet_loss'']
   \<and> 50000 \<le> length (rows (hd (files steady_flush_result)))
   \<and> rows (hd (files steady_flush_result)) \<noteq> []"
  using flushed_batch_nonempty [of "''20240103''" "[]" "[]" "datetime_of 2024 1 1 22"
      "datetime_of 2024 1 3 0" steady_source steady_flush_result]
    hd_files_flush steady_run_flush
  by blast

section \<open>Record counts and source ports\<close>

lemma generate_loop_unfold:
  assumes "current s < end_date" and "generate_loop events end_date s = Inr r"
  shows "\<exists>s'. hour_step events s = Inr s' \<and> generate_loop events end_date s' = Inr r"
  using assms by (subst (asm) generate_loop.simps) (auto split: sum.splits)

lemma generate_loop_done:
  assumes "\<not> current s < end_date"
  shows "generate_loop events end_date s = Inr s"
  using assms by (subst generate_loop.simps) simp

lemma hour_step_new:
  assumes "hour_step events s = Inr s'"
  shows "\<exists>new. 300 \<le> length new \<and> length new \<le> 1999
           \<and> (\<forall>r\<in>set new. timestamp r = strftime_full (current s))
           \<and> (all_records s' = all_records s @ new \<and> files s' = files s
                \<and> length (all_records s @ new) < 50000
               \<or> all_records s' = [] \<and> files s' \<noteq> [] \<and> butlast (files s') = files s
                  \<and> rows (last (files s')) = all_records s @ new
                  \<and> 50000 \<le> length (all_records s @ new))"
proof -
  from hour_step_cases [OF assms] obtain new
    where lo: "300 \<le> length new" and hi: "length new \<le> 1999"
      and ts: "\<forall>r\<in>set new. timestamp r = strftime_full (current s)"
      and eff: "if 50000 \<le> length (all_records s) + length new
               then all_records s' = []
                    \<and> files s' = files s @
                        [\<lparr>filename = ''traffic_data_batch_''
                             @ strftime_compact (current s + us_per_hour) @ ''.csv'',
                          header = keys (hd (all_records s @ new)),
                          rows = all_records s @ new\<rparr>]
               else all_records s' = all_records s @ new \<and> files s' = files s"
    by blast
  show ?thesis
  proof (cases "50000 \<le> length (all_records s) + length new")
    case True
    with eff lo hi ts show ?thesis by (intro exI [of _ new]) simp
  next
    case False
    with eff lo hi ts show ?thesis by (intro exI [of _ new]) simp
  qed
qed

text \<open>
  C5, as stated, fails: \<^verbatim>\<open>np.random.randint(300, 2000)\<close> excludes its upper bound.
  No bucket that starts from an empty batch leaves 2000 records in it.
\<close>

theorem bucket_never_2000_records:
  "\<not> (\<exists>events s s'. hour_step events s = Inr s' \<and> all_records s = []
         \<and> length (all_records s') = 2000)"
proof
  assume "\<exists>events s s'. hour_step events s = Inr s' \<and> all_records s = []
         \<and> length (all_records s') = 2000"
  then obtain events s s' where st: "hour_step events s = Inr s'" and e: "all_records s = []"
    and l: "length (all_records s') = 2000" by blast
  from hour_step_new [OF st] e l show False by auto
qed

text \<open>
  C5, amended. The records \<open>new\<close> generated for one bucket number at least 300 and at
  most 1999; they are appended to the batch in memory, or written with it as the last
  file. A run of two buckets returns between 600 and 3998 records and writes no file.
\<close>

theorem bucket_record_count:
  "(hour_step events s = Inr s' \<longrightarrow>
      (\<exists>new. 300 \<le> length new \<and> length new \<le> 1999
          \<and> (all_records s' = all_records s @ new
              \<or> all_records s' = [] \<and> rows (last (files s')) = all_records s @ new)))
   \<and> (generate_traffic_data events start_date (start_date + 2 * us_per_hour) g = Inr r \<longrightarrow>
        600 \<le> length (all_records r) \<and> length (all_records r) \<le> 3998 \<and> files r = [])"
proof (intro conjI impI)
  assume "hour_step events s = Inr s'"
  from hour_step_new [OF this]
  show "\<exists>new. 300 \<le> length new \<and> length new \<le> 1999
          \<and> (all_records s' = all_records s @ new
              \<or> all_records s' = [] \<and> rows (last (files s')) = all_records s @ new)"
    by blast
next
  let ?e = "start_date + 2 * us_per_hour"
  let ?s0 = "\<lparr>current = start_date, all_records = [], files = [], source = g\<rparr>"
  assume "generate_traffic_data events start_date ?e g = Inr r"
  then have run: "generate_loop events ?e ?s0 = Inr r"
    by (simp add: generate_traffic_data_def)
  have "current ?s0 < ?e" by (simp add: us_per_hour_def)
  from generate_loop_unfold [OF this run] obtain s1
    where st1: "hour_step events ?s0 = Inr s1" and run1: "generate_loop events ?e s1 = Inr r"
    by blast
  from hour_step_current [OF st1] have c1: "current s1 = start_date + us_per_hour" by simp
  then have "current s1 < ?e" by (simp add: us_per_hour_def)
  from generate_loop_unfold [OF this run1] obtain s2
    where st2: "hour_step events s1 = Inr s2" and run2: "generate_loop events ?e s2 = Inr r"
    by blast
  from hour_step_current [OF st2] c1 have "\<not> current s2 < ?e" by simp
  from generate_loop_done [OF this] run2 have r: "r = s2" by simp
  from hour_step_new [OF st1] obtain new1
    where n1: "300 \<le> length new1" "length new1 \<le> 1999"
      and a1: "all_records s1 = new1" and f1: "files s1 = []"
    by auto
  from hour_step_new [OF st2] a1 f1 n1 obtain new2
    where n2: "300 \<le> length new2" "length new2 \<le> 1999"
      and a2: "all_records s2 = new1 @ new2" and f2: "files s2 = []"
    by auto
  from n1 n2 a2 f2 r
  show "600 \<le> length (all_records r)" and "length (all_records r) \<le> 3998"
    and "files r = []"
    by simp_all
qed

theorem bucket_record_count_witness:
  "hour_step [] steady_first_state = Inr steady_second_state
   \<and> (\<exists>new. 300 \<le> length new \<and> length new \<le> 1999
         \<and> (all_records steady_second_state = all_records steady_first_state @ new
             \<or> all_records steady_second_state = []
                \<and> rows (last (files steady_second_state))
                    = all_records steady_first_state @ new))
   \<and> generate_traffic_data [] (datetime_of 2024 1 1 0)
         (datetime_of 2024 1 1 0 + 2 * us_per_hour) steady_source = Inr steady_two_result
   \<and> 600 \<le> length (all_records steady_two_result)
   \<and> length (all_records steady_two_result) \<le> 3998
   \<and> files steady_two_result = []"
proof -
  have ov: "current steady_first_state + us_per_hour < MAXORDINAL * us_per_day"
    by (simp add: steady_first_state_def datetime_values us_per_hour_def us_per_day_def
        MAXORDINAL_def del: One_nat_def)
  have src: "source steady_first_state = steady_source"
    by (simp add: steady_first_state_def)
  have a: "hour_step [] steady_first_state = Inr steady_second_state"
    by (simp add: hour_step_steady [OF ov src])
       (simp add: steady_first_state_def steady_second_state_def)
  have "datetime_of 2024 1 1 0 + 2 * us_per_hour = datetime_of 2024 1 1 2"
    by (simp add: datetime_values us_per_hour_def del: One_nat_def)
  with steady_run_two
  have b: "generate_traffic_data [] (datetime_of 2024 1 1 0)
         (datetime_of 2024 1 1 0 + 2 * us_per_hour) steady_source = Inr steady_two_result"
    by simp
  from bucket_record_count [where events = "[]" and s = steady_first_state
      and s' = steady_second_state and start_date = "datetime_of 2024 1 1 0"
      and g = steady_source and r = steady_two_result] a b
  show ?thesis by blast
qed

text \<open>
  C6, as stated, fails: \<^verbatim>\<open>np.random.randint(1024, 65535)\<close> excludes its upper bound.
  No record has source port 65535.
\<close>

theorem source_port_never_65535:
  "\<not> (\<exists>t i g r g'. generate_record t i g = Inr (r, g') \<and> source_port r = 65535)"
proof
  assume "\<exists>t i g r g'. generate_record t i g = Inr (r, g') \<and> source_port r = 65535"
  then obtain t i g r g' where r: "generate_record t i g = Inr (r, g')"
    and p: "source_port r = 65535" by blast
  from generate_record_ok [of t i g] r have "source_port r \<le> 65534" by auto
  with p show False by simp
qed

text \<open>
  C6, amended. The source port of every generated record is an integer of the range
  from 1024 to 65534, both included.
\<close>

theorem source_port_range:
  assumes "generate_record t i g = Inr (r, g')"
  shows "1024 \<le> source_port r \<and> source_port r \<le> 65534"
  using generate_record_ok [of t i g] assms by auto

theorem source_port_range_witness:
  "generate_record (datetime_of 2024 1 1 0) 1 steady_source
     = Inr (steady_record (datetime_of 2024 1 1 0) 1, steady_source)
   \<and> 1024 \<le> source_port (steady_record (datetime_of 2024 1 1 0) 1)
   \<and> source_port (steady_record (datetime_of 2024 1 1 0) 1) \<le> 65534"
  using source_port_range [OF generate_record_steady] generate_record_steady by blast

section \<open>Event impact\<close>

lemma relevant_events_filter:
  assumes "\<forall>e\<in>set events. date_range e \<noteq> None"
  shows "relevant_events events d = Inr [e\<leftarrow>events. prefix d (the (date_range e))]"
  using assms by (induction events) auto

lemma foldl_max_Max: "foldl max (x::real) xs = Max (set (x # xs))"
proof (induction xs arbitrary: x)
  case Nil
  then show ?case by simp
next
  case (Cons y ys)
  have "foldl max x (y # ys) = foldl max (max x y) ys" by simp
  also have "\<dots> = Max (set (max x y # ys))" by (rule Cons.IH)
  also have "\<dots> = Max (set (x # y # ys))"
  proof (cases "ys = []")
    case True
    then show ?thesis by (simp add: max.commute)
  next
    case False
    then show ?thesis by (simp add: max.assoc)
  qed
  finally show ?case .
qed

lemma max_default_Max: "max_default xs d = (if xs = [] then d else Max (set xs))"
  by (cases xs) (simp_all add: max_default_def foldl_max_Max del: foldl_Cons)

lemma date_first_bucket: "strftime_date (datetime_of 2024 1 1 0) = ''2024-01-01''"
  by (simp add: datetime_values strftime_date_def ymd_of_def ord2ymd_def
      pad2_def pad4_def digit_def us_per_day_def DAYS_BEFORE_MONTH_def DAYS_IN_MONTH_def
      Let_def del: One_nat_def)

lemma date_third_day: "strftime_date (datetime_of 2024 1 3 0) = ''2024-01-03''"
  by (simp add: datetime_values strftime_date_def ymd_of_def ord2ymd_def
      pad2_def pad4_def digit_def us_per_day_def DAYS_BEFORE_MONTH_def DAYS_IN_MONTH_def
      Let_def del: One_nat_def)

text \<open>
  C3, as stated, fails. The list comprehension reads \<^verbatim>\<open>e['date_range']\<close> of every
  event: one event without that key ends the run with \<^verbatim>\<open>KeyError\<close> in the first
  bucket. And an event is relevant when its \<^verbatim>\<open>date_range\<close> string starts with the
  date of the bucket, not when its range covers it: on 2024-01-03 the event of
  \<open>sample_events\<close> that runs from 2024-01-01 to 2024-01-05 does not count, and the
  impact is \<open>1.0\<close>.
\<close>

theorem missing_date_range_aborts:
  "generate_traffic_data [undated_event] (datetime_of 2024 1 1 0) (datetime_of 2024 1 1 2)
     steady_source = Inl KeyError
   \<and> event_impact sample_events (datetime_of 2024 1 3 0) = Inr 1"
proof
  let ?s0 = "\<lparr>current = datetime_of 2024 1 1 0, all_records = [], files = [],
              source = steady_source\<rparr>"
  have "hour_step [undated_event] ?s0 = Inl KeyError"
    by (simp add: hour_step_def event_impact_def undated_event_def)
  moreover have "current ?s0 < datetime_of 2024 1 1 2"
    by (simp add: datetime_values del: One_nat_def)
  ultimately have "generate_loop [undated_event] (datetime_of 2024 1 1 2) ?s0 = Inl KeyError"
    by (subst generate_loop.simps) simp
  then show "generate_traffic_data [undated_event] (datetime_of 2024 1 1 0)
      (datetime_of 2024 1 1 2) steady_source = Inl KeyError"
    by (simp add: generate_traffic_data_def)
next
  have "relevant_events sample_events ''2024-01-03'' = Inr []"
    by (simp add: sample_events_def)
  then show "event_impact sample_events (datetime_of 2024 1 3 0) = Inr 1"
    by (simp only: event_impact_def date_third_day) (simp add: max_default_def)
qed

text \<open>
  C3, amended. When every event has a \<^verbatim>\<open>date_range\<close>, the impact of a bucket is the
  greatest \<^verbatim>\<open>impact_score\<close> of the events whose \<^verbatim>\<open>date_range\<close> starts with the date
  of the bucket written \<^verbatim>\<open>YYYY-MM-DD\<close>, an event without score counting \<open>1.0\<close>; it is
  \<open>1.0\<close> when there is no such event.
\<close>

theorem event_impact_max:
  assumes "\<forall>e\<in>set events. date_range e \<noteq> None"
  shows "event_impact events t =
     Inr (if [e\<leftarrow>events. prefix (strftime_date t) (the (date_range e))] = [] then 1
          else Max (get_impact_score `
                 set [e\<leftarrow>events. prefix (strftime_date t) (the (date_range e))]))"
  by (simp add: event_impact_def relevant_events_filter [OF assms] max_default_Max)

theorem event_impact_max_witness:
  "event_impact sample_events (datetime_of 2024 1 1 0) = Inr (3 / 2)"
proof -
  have h: "\<forall>e\<in>set sample_events. date_range e \<noteq> None"
    by (simp add: sample_events_def)
  have "event_impact sample_events (datetime_of 2024 1 1 0) =
     Inr (if [e\<leftarrow>sample_events.
               prefix (strftime_date (datetime_of 2024 1 1 0)) (the (date_range e))] = [] then 1
          else Max (get_impact_score `
                 set [e\<leftarrow>sample_events.
                       prefix (strftime_date (datetime_of 2024 1 1 0)) (the (date_range e))]))"
    by (rule event_impact_max [OF h])
  also have "\<dots> = Inr (3 / 2)"
    by (simp only: date_first_bucket) (simp add: sample_events_def get_impact_score_def)
  finally show ?thesis .
qed

section \<open>The metrics model\<close>

text \<open>
  C1, evaluated where it fails. A record of the bucket 2024-01-01 00:00 with impact
  \<open>1.0\<close> and a base volume of 2000 bytes: \<open>base_packets\<close> is \<open>max(1, 1) = 1\<close>, the
  multiplier is \<open>0.7\<close>, and \<open>int(1 * 0.7)\<close> is \<open>0\<close>. The record carries 1400 bytes in
  0 packets.
\<close>

theorem packets_zero_off_peak:
  "packets (fst (generate_traffic_metrics (datetime_of 2024 1 1 0) 1 night_source)) = 0
   \<and> bytes (fst (generate_traffic_metrics (datetime_of 2024 1 1 0) 1 night_source)) = 1400"
  by (simp add: generate_traffic_metrics_def lognormal_def beta_def next_real_def
      night_source_def py_int_def hour_of_def datetime_of_def us_per_hour_def us_per_day_def
      time_multiplier_def days_before_year_def days_before_month_def DAYS_BEFORE_MONTH_def
      Let_def)

lemma generate_traffic_metrics_exact:
  "generate_traffic_metrics_fl (\<lambda>x. x) t i g = generate_traffic_metrics t i g"
  by (simp add: generate_traffic_metrics_fl_def generate_traffic_metrics_def
      final_multiplier_def Let_def split: prod.splits)










end
